theory Spec2Isabelle
  imports Main
begin

section \<open>The friendship-request router\<close>

text \<open>
  A shallow embedding of \<^verbatim>\<open>src/server/api/routers/friendship-request-router.ts\<close>:
  the two guards \<^verbatim>\<open>canSendFriendshipRequest\<close> and \<^verbatim>\<open>canAnswerFriendshipRequest\<close>
  and the three mutations \<^verbatim>\<open>send\<close>, \<^verbatim>\<open>accept\<close> and \<^verbatim>\<open>decline\<close>.

  The handlers run for an authenticated session (the \<^verbatim>\<open>authGuard\<close> has let the request
  through), so every handler takes the session's user id \<open>uid\<close>
  (\<^verbatim>\<open>ctx.session.userId\<close>) next to the parsed input \<open>fid\<close> (\<^verbatim>\<open>input.friendUserId\<close>).
  The local names \<^verbatim>\<open>userId\<close> and \<^verbatim>\<open>friendUserId\<close> of the source are written \<open>uid\<close> and
  \<open>fid\<close>, because \<open>userId\<close> and \<open>friendUserId\<close> are the column selectors here.
\<close>

subsection \<open>Tables\<close>

type_synonym ident = int

datatype friendship_status = Requested | Accepted | Declined

text \<open>
  A row of \<^verbatim>\<open>friendships\<close>, with the three columns the router reads and writes. The
  surrogate \<^verbatim>\<open>id\<close> column is only ever projected by the answer guard, never compared, and
  is left out.
\<close>

record friendship =
  userId :: ident
  friendUserId :: ident
  status :: friendship_status

text \<open>
  The database: of \<^verbatim>\<open>users\<close> the router reads the column \<^verbatim>\<open>id\<close> alone, so the table is
  the list of its ids; \<^verbatim>\<open>friendships\<close> is the list of its rows in storage order. The
  list type does not enforce the key of the table; \<open>insertInto\<close> below does, and \<open>keyed\<close>
  states it.
\<close>

record database =
  users :: "ident list"
  friendships :: "friendship list"

datatype error = BAD_REQUEST | UNIQUE_CONSTRAINT | DATA_ACCESS_FAILURE

text \<open>What a request leaves behind: the value it resolves to, or the error it throws,
  and the database afterwards.\<close>

type_synonym outcome = "(error + unit) \<times> database"

subsection \<open>The query builder\<close>

definition executeTakeFirst :: "'r list \<Rightarrow> 'r option" where
  "executeTakeFirst rows = (case rows of [] \<Rightarrow> None | r # _ \<Rightarrow> Some r)"

definition executeTakeFirstOrThrow :: "error \<Rightarrow> 'r list \<Rightarrow> error + 'r" where
  "executeTakeFirstOrThrow e rows =
     (case executeTakeFirst rows of None \<Rightarrow> Inl e | Some r \<Rightarrow> Inr r)"

text \<open>\<^verbatim>\<open>updateTable(..).set(..).where(..)\<close>: every row that meets the condition is
  rewritten, the others stay as they are.\<close>

definition updateTable :: "('r \<Rightarrow> 'r) \<Rightarrow> ('r \<Rightarrow> bool) \<Rightarrow> 'r list \<Rightarrow> 'r list" where
  "updateTable set_columns cond rows = map (\<lambda>r. if cond r then set_columns r else r) rows"

text \<open>
  Modelled from the spec: the schema of \<^verbatim>\<open>friendships\<close> is not part of the source. The
  spec describes the table as keyed by \<^verbatim>\<open>(userId, friendUserId)\<close>, and the comment on
  \<^verbatim>\<open>send\<close> records that a second plain insert for the same ordered pair fails. So an
  insert whose pair is already in the table is rejected and the table stays as it is;
  any other insert appends the row.
\<close>

definition insertInto :: "friendship \<Rightarrow> friendship list \<Rightarrow> error + friendship list" where
  "insertInto v rows =
     (if \<exists>r \<in> set rows. userId r = userId v \<and> friendUserId r = friendUserId v
      then Inl UNIQUE_CONSTRAINT
      else Inr (rows @ [v]))"

text \<open>
  A statement issued on the transaction handle may fail in the data-access layer for a
  reason of its own (the connection, the engine), and the router lets such a failure
  propagate. No table makes the statements of \<^verbatim>\<open>accept\<close> fail by themselves, so the
  failure is an input of the model: \<open>exec failed stmt\<close> is the statement \<open>stmt\<close> when the
  layer answers, and the layer's error when it does not. The statements outside the
  transaction (the guards' selects, the statements of \<^verbatim>\<open>send\<close> and \<^verbatim>\<open>decline\<close>) are
  modelled for a layer that answers.
\<close>

definition exec :: "bool \<Rightarrow> error + 'a \<Rightarrow> error + 'a" where
  "exec failed stmt = (if failed then Inl DATA_ACCESS_FAILURE else stmt)"

definition bindE :: "error + 'a \<Rightarrow> ('a \<Rightarrow> error + 'b) \<Rightarrow> error + 'b" where
  "bindE m k = (case m of Inl e \<Rightarrow> Inl e | Inr x \<Rightarrow> k x)"

text \<open>\<^verbatim>\<open>db.transaction().execute(body)\<close>: the body's writes are committed when it
  returns and rolled back when it throws.\<close>

definition transaction :: "(database \<Rightarrow> error + database) \<Rightarrow> database \<Rightarrow> outcome" where
  "transaction body db =
     (case body db of Inl e \<Rightarrow> (Inl e, db) | Inr t \<Rightarrow> (Inr (), t))"

text \<open>\<^verbatim>\<open>procedure.use(guard).mutation(handler)\<close>: the handler runs only when the guard
  calls \<^verbatim>\<open>next\<close>.\<close>

definition use :: "(database \<Rightarrow> error + unit) \<Rightarrow> (database \<Rightarrow> outcome) \<Rightarrow> database \<Rightarrow> outcome" where
  "use guard mutation db =
     (case guard db of Inl e \<Rightarrow> (Inl e, db) | Inr _ \<Rightarrow> mutation db)"

subsection \<open>Guards\<close>

definition canSendFriendshipRequest :: "ident \<Rightarrow> database \<Rightarrow> error + unit" where
  "canSendFriendshipRequest fid db =
     bindE (executeTakeFirstOrThrow BAD_REQUEST (take 1 (filter (\<lambda>i. i = fid) (users db))))
       (\<lambda>_. Inr ())"

definition canAnswerFriendshipRequest :: "ident \<Rightarrow> ident \<Rightarrow> database \<Rightarrow> error + unit" where
  "canAnswerFriendshipRequest uid fid db =
     bindE (executeTakeFirstOrThrow BAD_REQUEST
              (take 1 (filter (\<lambda>r. userId r = fid \<and> friendUserId r = uid \<and> status r = Requested)
                         (friendships db))))
       (\<lambda>_. Inr ())"

subsection \<open>Mutations\<close>

definition send_mutation :: "ident \<Rightarrow> ident \<Rightarrow> database \<Rightarrow> outcome" where
  "send_mutation uid fid db =
     (let existingRequest =
            executeTakeFirst
              (map status
                 (filter (\<lambda>r. userId r = uid \<and> friendUserId r = fid \<and> status r \<noteq> Accepted)
                    (friendships db)))
      in if existingRequest \<noteq> None
         then (Inr (),
               db\<lparr>friendships :=
                     updateTable (\<lambda>r. r\<lparr>status := Requested\<rparr>)
                       (\<lambda>r. userId r = uid \<and> friendUserId r = fid) (friendships db)\<rparr>)
         else (case insertInto \<lparr>userId = uid, friendUserId = fid, status = Requested\<rparr>
                      (friendships db) of
                 Inl e \<Rightarrow> (Inl e, db)
               | Inr rows \<Rightarrow> (Inr (), db\<lparr>friendships := rows\<rparr>)))"

definition send :: "ident \<Rightarrow> ident \<Rightarrow> database \<Rightarrow> outcome" where
  "send uid fid = use (canSendFriendshipRequest fid) (send_mutation uid fid)"

text \<open>
  The body of the transaction in \<^verbatim>\<open>accept\<close>. Its statements are numbered in program
  order: 0 the update of the request, 1 the select of the reverse row, 2 the insert and
  3 the update of the reverse row. \<open>flt k\<close> says that the data-access layer fails on
  statement \<open>k\<close>.
\<close>

definition accept_transaction :: "(nat \<Rightarrow> bool) \<Rightarrow> ident \<Rightarrow> ident \<Rightarrow> database \<Rightarrow> error + database" where
  "accept_transaction flt uid fid t =
     bindE (exec (flt 0)
              (Inr (t\<lparr>friendships :=
                        updateTable (\<lambda>r. r\<lparr>status := Accepted\<rparr>)
                          (\<lambda>r. userId r = fid \<and> friendUserId r = uid) (friendships t)\<rparr>)))
       (\<lambda>t1.
     bindE (exec (flt 1)
              (Inr (executeTakeFirst
                      (filter (\<lambda>r. userId r = uid \<and> friendUserId r = fid) (friendships t1)))))
       (\<lambda>existingFriendship.
     if existingFriendship = None
     then bindE (exec (flt 2)
                   (insertInto \<lparr>userId = uid, friendUserId = fid, status = Accepted\<rparr>
                      (friendships t1)))
            (\<lambda>rows. Inr (t1\<lparr>friendships := rows\<rparr>))
     else exec (flt 3)
            (Inr (t1\<lparr>friendships :=
                       updateTable (\<lambda>r. r\<lparr>status := Accepted\<rparr>)
                         (\<lambda>r. userId r = uid \<and> friendUserId r = fid) (friendships t1)\<rparr>))))"

definition accept :: "(nat \<Rightarrow> bool) \<Rightarrow> ident \<Rightarrow> ident \<Rightarrow> database \<Rightarrow> outcome" where
  "accept flt uid fid =
     use (canAnswerFriendshipRequest uid fid) (transaction (accept_transaction flt uid fid))"

definition decline_mutation :: "ident \<Rightarrow> ident \<Rightarrow> database \<Rightarrow> outcome" where
  "decline_mutation uid fid db =
     (Inr (),
      db\<lparr>friendships :=
            updateTable (\<lambda>r. r\<lparr>status := Declined\<rparr>)
              (\<lambda>r. userId r = fid \<and> friendUserId r = uid) (friendships db)\<rparr>)"

definition decline :: "ident \<Rightarrow> ident \<Rightarrow> database \<Rightarrow> outcome" where
  "decline uid fid = use (canAnswerFriendshipRequest uid fid) (decline_mutation uid fid)"

subsection \<open>Requests in sequence\<close>

text \<open>The three procedures of the router, each with the session's user id and the input,
  and the server handling requests one after the other on the same database.\<close>

datatype request =
    Send ident ident
  | Accept "nat \<Rightarrow> bool" ident ident
  | Decline ident ident

fun handle :: "request \<Rightarrow> database \<Rightarrow> outcome" where
  "handle (Send uid fid) db = send uid fid db"
| "handle (Accept flt uid fid) db = accept flt uid fid db"
| "handle (Decline uid fid) db = decline uid fid db"

fun run :: "request list \<Rightarrow> database \<Rightarrow> database" where
  "run [] db = db"
| "run (rq # rqs) db = run rqs (snd (handle rq db))"

subsection \<open>Properties of tables\<close>

text \<open>\<open>edge a b s rows\<close>: the table holds the directed edge from \<open>a\<close> to \<open>b\<close> with
  status \<open>s\<close>.\<close>

definition edge :: "ident \<Rightarrow> ident \<Rightarrow> friendship_status \<Rightarrow> friendship list \<Rightarrow> bool" where
  "edge a b s rows = (\<exists>r \<in> set rows. userId r = a \<and> friendUserId r = b \<and> status r = s)"

text \<open>The rows whose ordered pair is none of \<open>ks\<close>, in storage order.\<close>

definition other_rows :: "(ident \<times> ident) set \<Rightarrow> friendship list \<Rightarrow> friendship list" where
  "other_rows ks rows = filter (\<lambda>r. (userId r, friendUserId r) \<notin> ks) rows"

text \<open>The key of the schema: no two rows for the same ordered pair.\<close>

definition keyed :: "friendship list \<Rightarrow> bool" where
  "keyed rows = distinct (map (\<lambda>r. (userId r, friendUserId r)) rows)"

text \<open>The mutual-friendship invariant: an accepted edge one way is matched by an
  accepted edge the other way.\<close>

definition mutual_friendship :: "friendship list \<Rightarrow> bool" where
  "mutual_friendship rows = (\<forall>a b. edge a b Accepted rows \<longleftrightarrow> edge b a Accepted rows)"

subsection \<open>Example databases\<close>

text \<open>The data-access layer that never fails.\<close>

definition no_fault :: "nat \<Rightarrow> bool" where
  "no_fault k = False"

text \<open>User 1 has asked user 2.\<close>

definition db_pending :: database where
  "db_pending =
     \<lparr>users = [1, 2],
      friendships = [\<lparr>userId = 1, friendUserId = 2, status = Requested\<rparr>]\<rparr>"

text \<open>Users 1 and 2 are friends.\<close>

definition db_friends :: database where
  "db_friends =
     \<lparr>users = [1, 2],
      friendships = [\<lparr>userId = 1, friendUserId = 2, status = Accepted\<rparr>,
                     \<lparr>userId = 2, friendUserId = 1, status = Accepted\<rparr>]\<rparr>"

text \<open>User 2 has declined the request of user 1.\<close>

definition db_declined :: database where
  "db_declined =
     \<lparr>users = [1, 2],
      friendships = [\<lparr>userId = 1, friendUserId = 2, status = Declined\<rparr>]\<rparr>"

text \<open>No edge yet.\<close>

definition db_strangers :: database where
  "db_strangers = \<lparr>users = [1, 2], friendships = []\<rparr>"

text \<open>A single user, first without any edge, then with a pending and with an accepted
  request to themselves.\<close>

definition db_alone :: database where
  "db_alone = \<lparr>users = [1], friendships = []\<rparr>"

definition db_self_pending :: database where
  "db_self_pending =
     \<lparr>users = [1],
      friendships = [\<lparr>userId = 1, friendUserId = 1, status = Requested\<rparr>]\<rparr>"

definition db_self_friend :: database where
  "db_self_friend =
     \<lparr>users = [1],
      friendships = [\<lparr>userId = 1, friendUserId = 1, status = Accepted\<rparr>]\<rparr>"

text \<open>User 1 has asked user 2, who had been declined by user 1 before.\<close>

definition db_crossed :: database where
  "db_crossed =
     \<lparr>users = [1, 2],
      friendships = [\<lparr>userId = 1, friendUserId = 2, status = Requested\<rparr>,
                     \<lparr>userId = 2, friendUserId = 1, status = Declined\<rparr>]\<rparr>"

text \<open>The data-access layer that fails on statement \<open>n\<close> of the transaction only.\<close>

definition fault_at :: "nat \<Rightarrow> nat \<Rightarrow> bool" where
  "fault_at n k = (k = n)"

section \<open>Auxiliary facts\<close>

subsection \<open>Queries and statements\<close>

lemma executeTakeFirst_None: "executeTakeFirst rows = None \<longleftrightarrow> rows = []"
  by (cases rows) (simp_all add: executeTakeFirst_def)

lemma executeTakeFirst_Some: "executeTakeFirst rows = Some r \<Longrightarrow> r \<in> set rows"
  by (cases rows) (simp_all add: executeTakeFirst_def)

lemma executeTakeFirst_take: "executeTakeFirst (take (Suc 0) rows) = executeTakeFirst rows"
  by (cases rows) (simp_all add: executeTakeFirst_def)

lemma canSendFriendshipRequest_eq:
  "canSendFriendshipRequest fid db = (if fid \<in> set (users db) then Inr () else Inl BAD_REQUEST)"
proof (cases "executeTakeFirst (filter (\<lambda>i. i = fid) (users db))")
  case None
  then have "fid \<notin> set (users db)"
    by (auto simp: executeTakeFirst_None filter_empty_conv)
  with None show ?thesis
    by (simp add: canSendFriendshipRequest_def bindE_def executeTakeFirstOrThrow_def
        executeTakeFirst_take)
next
  case (Some i)
  then have "i \<in> set (filter (\<lambda>i. i = fid) (users db))"
    by (rule executeTakeFirst_Some)
  then have "fid \<in> set (users db)"
    by auto
  with Some show ?thesis
    by (simp add: canSendFriendshipRequest_def bindE_def executeTakeFirstOrThrow_def
        executeTakeFirst_take)
qed

lemma canAnswerFriendshipRequest_eq:
  "canAnswerFriendshipRequest uid fid db =
     (if edge fid uid Requested (friendships db) then Inr () else Inl BAD_REQUEST)"
proof (cases "executeTakeFirst (filter (\<lambda>r. userId r = fid \<and> friendUserId r = uid \<and> status r = Requested) (friendships db))")
  case None
  then have "\<not> edge fid uid Requested (friendships db)"
    by (auto simp: executeTakeFirst_None filter_empty_conv edge_def)
  with None show ?thesis
    by (simp add: canAnswerFriendshipRequest_def bindE_def executeTakeFirstOrThrow_def
        executeTakeFirst_take)
next
  case (Some i)
  then have "i \<in> set (filter (\<lambda>r. userId r = fid \<and> friendUserId r = uid \<and> status r = Requested) (friendships db))"
    by (rule executeTakeFirst_Some)
  then have "edge fid uid Requested (friendships db)"
    unfolding edge_def by auto
  with Some show ?thesis
    by (simp add: canAnswerFriendshipRequest_def bindE_def executeTakeFirstOrThrow_def
        executeTakeFirst_take)
qed

lemma edge_some: "(\<exists>s. edge a b s rows) \<longleftrightarrow> (\<exists>r \<in> set rows. userId r = a \<and> friendUserId r = b)"
  by (simp add: edge_def) blast

lemma edge_Cons:
  "edge a b s (r # rows) \<longleftrightarrow> (userId r = a \<and> friendUserId r = b \<and> status r = s) \<or> edge a b s rows"
  by (simp add: edge_def)

lemma edge_Nil: "\<not> edge a b s []"
  by (simp add: edge_def)

lemma updateTable_Cons:
  "updateTable f cond (r # rows) = (if cond r then f r else r) # updateTable f cond rows"
  by (simp add: updateTable_def)

lemma updateTable_Nil: "updateTable f cond [] = []"
  by (simp add: updateTable_def)

lemma edge_updateTable_same:
  "edge c d s (updateTable (\<lambda>r. r\<lparr>status := s'\<rparr>) (\<lambda>r. userId r = c \<and> friendUserId r = d) rows)
     \<longleftrightarrow> s = s' \<and> (\<exists>r \<in> set rows. userId r = c \<and> friendUserId r = d)"
proof (induction rows)
  case Nil
  show ?case by (simp add: updateTable_Nil edge_Nil)
next
  case (Cons r rows)
  show ?case
    unfolding updateTable_Cons edge_Cons Cons.IH
    by (cases "userId r = c \<and> friendUserId r = d") auto
qed

lemma edge_updateTable_other:
  "(a, b) \<noteq> (c, d) \<Longrightarrow>
   edge a b s (updateTable (\<lambda>r. r\<lparr>status := s'\<rparr>) (\<lambda>r. userId r = c \<and> friendUserId r = d) rows)
     \<longleftrightarrow> edge a b s rows"
proof (induction rows)
  case Nil
  show ?case by (simp add: updateTable_Nil)
next
  case (Cons r rows)
  then show ?case
    unfolding updateTable_Cons edge_Cons
    by (cases "userId r = c \<and> friendUserId r = d") auto
qed

lemma status_updateTable:
  "\<forall>r \<in> set (updateTable (\<lambda>r. r\<lparr>status := s\<rparr>) (\<lambda>r. userId r = c \<and> friendUserId r = d) rows).
     userId r = c \<and> friendUserId r = d \<longrightarrow> status r = s"
proof (induction rows)
  case Nil
  show ?case by (simp add: updateTable_Nil)
next
  case (Cons x rows)
  then show ?case
    by (simp add: updateTable_Cons) blast
qed

lemma other_rows_updateTable:
  "(c, d) \<in> ks \<Longrightarrow>
   other_rows ks (updateTable (\<lambda>r. r\<lparr>status := s\<rparr>) (\<lambda>r. userId r = c \<and> friendUserId r = d) rows)
     = other_rows ks rows"
  by (induction rows) (simp_all add: other_rows_def updateTable_Nil updateTable_Cons)

lemma other_rows_append:
  "(userId v, friendUserId v) \<in> ks \<Longrightarrow> other_rows ks (rows @ [v]) = other_rows ks rows"
  by (simp add: other_rows_def)

lemma keys_updateTable:
  "map (\<lambda>r. (userId r, friendUserId r)) (updateTable (\<lambda>r. r\<lparr>status := s\<rparr>) cond rows)
     = map (\<lambda>r. (userId r, friendUserId r)) rows"
  by (simp add: updateTable_def)

lemma keyed_updateTable:
  "keyed (updateTable (\<lambda>r. r\<lparr>status := s\<rparr>) cond rows) = keyed rows"
  by (simp add: keyed_def keys_updateTable)

lemma length_updateTable: "length (updateTable f cond rows) = length rows"
  by (simp add: updateTable_def)

lemma insertInto_eq:
  "insertInto v rows =
     (if \<exists>s. edge (userId v) (friendUserId v) s rows then Inl UNIQUE_CONSTRAINT
      else Inr (rows @ [v]))"
  by (auto simp: insertInto_def edge_def)

lemma key_in_keys:
  "(a, b) \<in> (\<lambda>r. (userId r, friendUserId r)) ` set rows \<longleftrightarrow> (\<exists>s. edge a b s rows)"
  by (force simp: edge_def image_iff)

lemma keyed_append:
  "keyed (rows @ [v]) \<longleftrightarrow> keyed rows \<and> \<not> (\<exists>s. edge (userId v) (friendUserId v) s rows)"
  by (simp add: keyed_def key_in_keys)

lemma edge_append:
  "edge a b s (rows @ [v]) \<longleftrightarrow> edge a b s rows \<or> (userId v = a \<and> friendUserId v = b \<and> status v = s)"
  by (auto simp: edge_def)

lemma keyed_edge_unique:
  "keyed rows \<Longrightarrow> edge a b s rows \<Longrightarrow> edge a b s' rows \<Longrightarrow> s = s'"
  unfolding keyed_def edge_def
  by (induction rows) (auto simp: image_iff)

lemma existingRequest_None:
  "executeTakeFirst (map status (filter (\<lambda>r. userId r = a \<and> friendUserId r = b \<and> status r \<noteq> Accepted) rows)) = None
     \<longleftrightarrow> \<not> (\<exists>s. s \<noteq> Accepted \<and> edge a b s rows)"
  by (auto simp: executeTakeFirst_None filter_empty_conv edge_def)

lemma existingFriendship_None:
  "executeTakeFirst (filter (\<lambda>r. userId r = a \<and> friendUserId r = b) rows) = None
     \<longleftrightarrow> \<not> (\<exists>s. edge a b s rows)"
  by (auto simp: executeTakeFirst_None filter_empty_conv edge_def)

lemma send_mutation_update:
  assumes "\<exists>s. s \<noteq> Accepted \<and> edge u f s (friendships db)"
  shows "send_mutation u f db =
     (Inr (), db\<lparr>friendships := updateTable (\<lambda>r. r\<lparr>status := Requested\<rparr>)
                      (\<lambda>r. userId r = u \<and> friendUserId r = f) (friendships db)\<rparr>)"
proof -
  have ex: "executeTakeFirst (map status (filter (\<lambda>r. userId r = u \<and> friendUserId r = f \<and> status r \<noteq> Accepted) (friendships db))) \<noteq> None"
    using assms existingRequest_None [of u f "friendships db"] by blast
  show ?thesis
    unfolding send_mutation_def Let_def by (simp only: ex not_False_eq_True if_True)
qed

lemma send_mutation_insert:
  assumes "\<not> (\<exists>s. s \<noteq> Accepted \<and> edge u f s (friendships db))"
  shows "send_mutation u f db =
     (if edge u f Accepted (friendships db) then (Inl UNIQUE_CONSTRAINT, db)
      else (Inr (), db\<lparr>friendships :=
                       friendships db @ [\<lparr>userId = u, friendUserId = f, status = Requested\<rparr>]\<rparr>))"
proof -
  have ex: "executeTakeFirst (map status (filter (\<lambda>r. userId r = u \<and> friendUserId r = f \<and> status r \<noteq> Accepted) (friendships db))) = None"
    using assms existingRequest_None [of u f "friendships db"] by blast
  have *: "(\<exists>s. edge u f s (friendships db)) \<longleftrightarrow> edge u f Accepted (friendships db)"
    using assms by metis
  have ins: "insertInto \<lparr>userId = u, friendUserId = f, status = Requested\<rparr> (friendships db) =
          (if edge u f Accepted (friendships db) then Inl UNIQUE_CONSTRAINT
           else Inr (friendships db @ [\<lparr>userId = u, friendUserId = f, status = Requested\<rparr>]))"
    unfolding insertInto_eq by (simp add: *)
  show ?thesis
    unfolding send_mutation_def Let_def ex ins by simp
qed

lemma send_eq:
  "send u f db =
     (if f \<notin> set (users db) then (Inl BAD_REQUEST, db) else send_mutation u f db)"
  by (simp add: send_def use_def canSendFriendshipRequest_eq)

lemma decline_eq:
  "decline u f db =
     (if \<not> edge f u Requested (friendships db) then (Inl BAD_REQUEST, db)
      else (Inr (), db\<lparr>friendships := updateTable (\<lambda>r. r\<lparr>status := Declined\<rparr>)
                       (\<lambda>r. userId r = f \<and> friendUserId r = u) (friendships db)\<rparr>))"
  by (simp add: decline_def use_def canAnswerFriendshipRequest_eq decline_mutation_def)

lemma edge_some_updateTable:
  "(\<exists>s. edge a b s (updateTable (\<lambda>r. r\<lparr>status := s'\<rparr>) cond rows)) \<longleftrightarrow> (\<exists>s. edge a b s rows)"
  by (simp only: key_in_keys [symmetric] set_map [symmetric] keys_updateTable)

lemma accept_transaction_eq:
  fixes db u f
  defines "t1 \<equiv> updateTable (\<lambda>r. r\<lparr>status := Accepted\<rparr>)
                   (\<lambda>r. userId r = f \<and> friendUserId r = u) (friendships db)"
  shows "accept_transaction flt u f db =
     (if flt 0 \<or> flt 1 then Inl DATA_ACCESS_FAILURE
      else if \<exists>s. edge u f s (friendships db)
      then (if flt 3 then Inl DATA_ACCESS_FAILURE
            else Inr (db\<lparr>friendships :=
                          updateTable (\<lambda>r. r\<lparr>status := Accepted\<rparr>)
                            (\<lambda>r. userId r = u \<and> friendUserId r = f) t1\<rparr>))
      else (if flt 2 then Inl DATA_ACCESS_FAILURE
            else Inr (db\<lparr>friendships :=
                          t1 @ [\<lparr>userId = u, friendUserId = f, status = Accepted\<rparr>]\<rparr>)))"
proof (cases "\<exists>s. edge u f s (friendships db)")
  case True
  have "\<exists>s. edge u f s t1"
    unfolding t1_def edge_some_updateTable by (rule True)
  then have ex: "executeTakeFirst (filter (\<lambda>r. userId r = u \<and> friendUserId r = f) t1) \<noteq> None"
    using existingFriendship_None [of u f t1] by blast
  show ?thesis
    unfolding accept_transaction_def exec_def bindE_def t1_def [symmetric]
    by (simp add: t1_def [symmetric] ex True)
next
  case False
  have no: "\<not> (\<exists>s. edge u f s t1)"
    unfolding t1_def edge_some_updateTable by (rule False)
  then have ex: "executeTakeFirst (filter (\<lambda>r. userId r = u \<and> friendUserId r = f) t1) = None"
    using existingFriendship_None [of u f t1] by blast
  have ins: "insertInto \<lparr>userId = u, friendUserId = f, status = Accepted\<rparr> t1 =
               Inr (t1 @ [\<lparr>userId = u, friendUserId = f, status = Accepted\<rparr>])"
    using no unfolding insertInto_eq by simp
  show ?thesis
    unfolding accept_transaction_def exec_def bindE_def t1_def [symmetric]
    by (simp add: t1_def [symmetric] ex ins False)
qed

lemma accept_eq:
  "accept flt u f db =
     (if \<not> edge f u Requested (friendships db) then (Inl BAD_REQUEST, db)
      else transaction (accept_transaction flt u f) db)"
  by (simp add: accept_def use_def canAnswerFriendshipRequest_eq)

lemma edge_updateTable:
  "edge a b s (updateTable (\<lambda>r. r\<lparr>status := s'\<rparr>) (\<lambda>r. userId r = c \<and> friendUserId r = d) rows)
     \<longleftrightarrow> (if a = c \<and> b = d then s = s' \<and> (\<exists>s0. edge a b s0 rows) else edge a b s rows)"
proof (cases "a = c \<and> b = d")
  case True
  then show ?thesis
    by (simp add: edge_updateTable_same edge_some)
next
  case False
  then have ne: "(a, b) \<noteq> (c, d)" by simp
  show ?thesis
    unfolding if_not_P [OF False] by (rule edge_updateTable_other [OF ne])
qed

lemma accept_cases:
  fixes db u f
  defines "t1 \<equiv> updateTable (\<lambda>r. r\<lparr>status := Accepted\<rparr>)
                   (\<lambda>r. userId r = f \<and> friendUserId r = u) (friendships db)"
  shows "accept flt u f db =
     (if \<not> edge f u Requested (friendships db) then (Inl BAD_REQUEST, db)
      else if flt 0 \<or> flt 1 \<or> (if \<exists>s. edge u f s (friendships db) then flt 3 else flt 2)
      then (Inl DATA_ACCESS_FAILURE, db)
      else (Inr (),
            db\<lparr>friendships :=
                  (if \<exists>s. edge u f s (friendships db)
                   then updateTable (\<lambda>r. r\<lparr>status := Accepted\<rparr>)
                          (\<lambda>r. userId r = u \<and> friendUserId r = f) t1
                   else t1 @ [\<lparr>userId = u, friendUserId = f, status = Accepted\<rparr>])\<rparr>))"
  unfolding accept_eq transaction_def accept_transaction_eq t1_def
  by simp

lemma accept_cases_update:
  assumes "\<exists>s. edge u f s (friendships db)"
  shows "accept flt u f db =
     (if \<not> edge f u Requested (friendships db) then (Inl BAD_REQUEST, db)
      else if flt 0 \<or> flt 1 \<or> flt 3 then (Inl DATA_ACCESS_FAILURE, db)
      else (Inr (),
            db\<lparr>friendships :=
                  updateTable (\<lambda>r. r\<lparr>status := Accepted\<rparr>)
                    (\<lambda>r. userId r = u \<and> friendUserId r = f)
                    (updateTable (\<lambda>r. r\<lparr>status := Accepted\<rparr>)
                       (\<lambda>r. userId r = f \<and> friendUserId r = u) (friendships db))\<rparr>))"
  unfolding accept_cases if_P [OF assms] by (rule refl)

lemma accept_cases_insert:
  assumes "\<not> (\<exists>s. edge u f s (friendships db))"
  shows "accept flt u f db =
     (if \<not> edge f u Requested (friendships db) then (Inl BAD_REQUEST, db)
      else if flt 0 \<or> flt 1 \<or> flt 2 then (Inl DATA_ACCESS_FAILURE, db)
      else (Inr (),
            db\<lparr>friendships :=
                  updateTable (\<lambda>r. r\<lparr>status := Accepted\<rparr>)
                    (\<lambda>r. userId r = f \<and> friendUserId r = u) (friendships db)
                  @ [\<lparr>userId = u, friendUserId = f, status = Accepted\<rparr>]\<rparr>))"
  unfolding accept_cases if_not_P [OF assms] by (rule refl)

lemma accept_success:
  assumes "fst (accept flt u f db) = Inr ()"
  shows "edge f u Requested (friendships db)"
    and "snd (accept flt u f db) =
           db\<lparr>friendships :=
                 (if \<exists>s. edge u f s (friendships db)
                  then updateTable (\<lambda>r. r\<lparr>status := Accepted\<rparr>)
                         (\<lambda>r. userId r = u \<and> friendUserId r = f)
                         (updateTable (\<lambda>r. r\<lparr>status := Accepted\<rparr>)
                            (\<lambda>r. userId r = f \<and> friendUserId r = u) (friendships db))
                  else updateTable (\<lambda>r. r\<lparr>status := Accepted\<rparr>)
                         (\<lambda>r. userId r = f \<and> friendUserId r = u) (friendships db)
                       @ [\<lparr>userId = u, friendUserId = f, status = Accepted\<rparr>])\<rparr>"
proof -
  show "edge f u Requested (friendships db)"
  proof (cases "\<exists>s. edge u f s (friendships db)")
    case True
    from assms show ?thesis
      unfolding accept_cases_update [OF True] by (auto split: if_splits)
  next
    case False
    from assms show ?thesis
      unfolding accept_cases_insert [OF False] by (auto split: if_splits)
  qed
  show "snd (accept flt u f db) =
           db\<lparr>friendships :=
                 (if \<exists>s. edge u f s (friendships db)
                  then updateTable (\<lambda>r. r\<lparr>status := Accepted\<rparr>)
                         (\<lambda>r. userId r = u \<and> friendUserId r = f)
                         (updateTable (\<lambda>r. r\<lparr>status := Accepted\<rparr>)
                            (\<lambda>r. userId r = f \<and> friendUserId r = u) (friendships db))
                  else updateTable (\<lambda>r. r\<lparr>status := Accepted\<rparr>)
                         (\<lambda>r. userId r = f \<and> friendUserId r = u) (friendships db)
                       @ [\<lparr>userId = u, friendUserId = f, status = Accepted\<rparr>])\<rparr>"
  proof (cases "\<exists>s. edge u f s (friendships db)")
    case True
    from assms show ?thesis
      unfolding accept_cases_update [OF True] if_P [OF True] by (auto split: if_splits)
  next
    case False
    from assms show ?thesis
      unfolding accept_cases_insert [OF False] if_not_P [OF False] by (auto split: if_splits)
  qed
qed

lemma accept_no_fault:
  assumes "edge f u Requested (friendships db)"
    and "\<not> flt 0" "\<not> flt 1" "\<not> flt 2" "\<not> flt 3"
  shows "fst (accept flt u f db) = Inr ()"
proof (cases "\<exists>s. edge u f s (friendships db)")
  case True
  from assms show ?thesis
    unfolding accept_cases_update [OF True] by simp
next
  case False
  from assms show ?thesis
    unfolding accept_cases_insert [OF False] by simp
qed

lemma accept_failure:
  assumes "fst (accept flt u f db) \<noteq> Inr ()"
  shows "snd (accept flt u f db) = db"
proof (cases "\<exists>s. edge u f s (friendships db)")
  case True
  from assms show ?thesis
    unfolding accept_cases_update [OF True] by (auto split: if_splits)
next
  case False
  from assms show ?thesis
    unfolding accept_cases_insert [OF False] by (auto split: if_splits)
qed

lemma edge_updateTable_sameI:
  "\<exists>s0. edge c d s0 rows \<Longrightarrow>
   edge c d s' (updateTable (\<lambda>r. r\<lparr>status := s'\<rparr>) (\<lambda>r. userId r = c \<and> friendUserId r = d) rows)"
  by (simp add: edge_updateTable)

lemma edge_updateTable_keepI:
  "edge a b s' rows \<Longrightarrow>
   edge a b s' (updateTable (\<lambda>r. r\<lparr>status := s'\<rparr>) (\<lambda>r. userId r = c \<and> friendUserId r = d) rows)"
  unfolding edge_updateTable by (cases "a = c \<and> b = d") auto

lemma accepted_both_update:
  assumes "\<exists>s. edge f u s rows" and "\<exists>s. edge u f s rows"
  shows "edge f u Accepted
           (updateTable (\<lambda>r. r\<lparr>status := Accepted\<rparr>) (\<lambda>r. userId r = u \<and> friendUserId r = f)
              (updateTable (\<lambda>r. r\<lparr>status := Accepted\<rparr>) (\<lambda>r. userId r = f \<and> friendUserId r = u) rows))"
    and "edge u f Accepted
           (updateTable (\<lambda>r. r\<lparr>status := Accepted\<rparr>) (\<lambda>r. userId r = u \<and> friendUserId r = f)
              (updateTable (\<lambda>r. r\<lparr>status := Accepted\<rparr>) (\<lambda>r. userId r = f \<and> friendUserId r = u) rows))"
proof -
  let ?t1 = "updateTable (\<lambda>r. r\<lparr>status := Accepted\<rparr>) (\<lambda>r. userId r = f \<and> friendUserId r = u) rows"
  have "edge f u Accepted ?t1"
    using assms(1) by (rule edge_updateTable_sameI)
  then show "edge f u Accepted
           (updateTable (\<lambda>r. r\<lparr>status := Accepted\<rparr>) (\<lambda>r. userId r = u \<and> friendUserId r = f) ?t1)"
    by (rule edge_updateTable_keepI)
  have "\<exists>s. edge u f s ?t1"
    unfolding edge_some_updateTable by (rule assms(2))
  then show "edge u f Accepted
           (updateTable (\<lambda>r. r\<lparr>status := Accepted\<rparr>) (\<lambda>r. userId r = u \<and> friendUserId r = f) ?t1)"
    by (rule edge_updateTable_sameI)
qed

lemma accepted_both_insert:
  assumes "\<exists>s. edge f u s rows"
  shows "edge f u Accepted
           (updateTable (\<lambda>r. r\<lparr>status := Accepted\<rparr>) (\<lambda>r. userId r = f \<and> friendUserId r = u) rows
            @ [\<lparr>userId = u, friendUserId = f, status = Accepted\<rparr>])"
    and "edge u f Accepted
           (updateTable (\<lambda>r. r\<lparr>status := Accepted\<rparr>) (\<lambda>r. userId r = f \<and> friendUserId r = u) rows
            @ [\<lparr>userId = u, friendUserId = f, status = Accepted\<rparr>])"
proof -
  let ?t1 = "updateTable (\<lambda>r. r\<lparr>status := Accepted\<rparr>) (\<lambda>r. userId r = f \<and> friendUserId r = u) rows"
  have "edge f u Accepted ?t1"
    using assms(1) by (rule edge_updateTable_sameI)
  then show "edge f u Accepted (?t1 @ [\<lparr>userId = u, friendUserId = f, status = Accepted\<rparr>])"
    unfolding edge_append by (rule disjI1)
  show "edge u f Accepted (?t1 @ [\<lparr>userId = u, friendUserId = f, status = Accepted\<rparr>])"
    unfolding edge_append by simp
qed

subsection \<open>The outcomes of the three procedures\<close>

lemma send_mutation_not_bad_request: "fst (send_mutation u f db) \<noteq> Inl BAD_REQUEST"
proof (cases "\<exists>s. s \<noteq> Accepted \<and> edge u f s (friendships db)")
  case True
  show ?thesis unfolding send_mutation_update [OF True] by simp
next
  case False
  show ?thesis unfolding send_mutation_insert [OF False] by simp
qed

lemma decline_success:
  assumes "edge f u Requested (friendships db)"
  shows "decline u f db =
           (Inr (), db\<lparr>friendships := updateTable (\<lambda>r. r\<lparr>status := Declined\<rparr>)
                            (\<lambda>r. userId r = f \<and> friendUserId r = u) (friendships db)\<rparr>)"
  unfolding decline_eq using assms by simp

lemma send_update:
  assumes "f \<in> set (users db)" and "\<exists>s. s \<noteq> Accepted \<and> edge u f s (friendships db)"
  shows "send u f db =
     (Inr (), db\<lparr>friendships := updateTable (\<lambda>r. r\<lparr>status := Requested\<rparr>)
                      (\<lambda>r. userId r = u \<and> friendUserId r = f) (friendships db)\<rparr>)"
  unfolding send_eq send_mutation_update [OF assms(2)] using assms(1) by simp

lemma send_insert:
  assumes "f \<in> set (users db)" and "\<not> (\<exists>s. edge u f s (friendships db))"
  shows "send u f db =
     (Inr (), db\<lparr>friendships :=
                    friendships db @ [\<lparr>userId = u, friendUserId = f, status = Requested\<rparr>]\<rparr>)"
proof -
  from assms(2) have na: "\<not> (\<exists>s. s \<noteq> Accepted \<and> edge u f s (friendships db))"
    and acc: "\<not> edge u f Accepted (friendships db)"
    by blast+
  show ?thesis
    unfolding send_eq send_mutation_insert [OF na] if_not_P [OF acc] using assms(1) by simp
qed

lemma send_rejected:
  assumes "f \<in> set (users db)" and "\<not> (\<exists>s. s \<noteq> Accepted \<and> edge u f s (friendships db))"
    and "edge u f Accepted (friendships db)"
  shows "send u f db = (Inl UNIQUE_CONSTRAINT, db)"
  unfolding send_eq send_mutation_insert [OF assms(2)] if_P [OF assms(3)] using assms(1) by simp

lemma send_bad_request_iff:
  "fst (send u f db) = Inl BAD_REQUEST \<longleftrightarrow> f \<notin> set (users db)"
  unfolding send_eq using send_mutation_not_bad_request [of u f db] by simp

lemma accept_bad_request_iff:
  "fst (accept flt u f db) = Inl BAD_REQUEST \<longleftrightarrow> \<not> edge f u Requested (friendships db)"
proof (cases "\<exists>s. edge u f s (friendships db)")
  case True
  show ?thesis unfolding accept_cases_update [OF True] by simp
next
  case False
  show ?thesis unfolding accept_cases_insert [OF False] by simp
qed

lemma decline_bad_request_iff:
  "fst (decline u f db) = Inl BAD_REQUEST \<longleftrightarrow> \<not> edge f u Requested (friendships db)"
  unfolding decline_eq by simp

lemma send_bad_request_unchanged:
  "fst (send u f db) = Inl BAD_REQUEST \<Longrightarrow> snd (send u f db) = db"
  unfolding send_bad_request_iff by (simp add: send_eq)

lemma accept_bad_request_unchanged:
  "fst (accept flt u f db) = Inl BAD_REQUEST \<Longrightarrow> snd (accept flt u f db) = db"
  by (rule accept_failure) simp

lemma decline_bad_request_unchanged:
  "fst (decline u f db) = Inl BAD_REQUEST \<Longrightarrow> snd (decline u f db) = db"
  unfolding decline_bad_request_iff by (simp add: decline_eq)

lemma other_rows_twice:
  "(a, b) \<in> ks \<Longrightarrow> (c, d) \<in> ks \<Longrightarrow>
   other_rows ks
     (updateTable (\<lambda>r. r\<lparr>status := s\<rparr>) (\<lambda>r. userId r = a \<and> friendUserId r = b)
        (updateTable (\<lambda>r. r\<lparr>status := s'\<rparr>) (\<lambda>r. userId r = c \<and> friendUserId r = d) rows))
     = other_rows ks rows"
  by (simp only: other_rows_updateTable)

lemma status_append_new:
  assumes "\<not> (\<exists>s. edge a b s rows)"
  shows "\<forall>r \<in> set (rows @ [\<lparr>userId = a, friendUserId = b, status = s'\<rparr>]).
           userId r = a \<and> friendUserId r = b \<longrightarrow> status r = s'"
  using assms unfolding edge_some by auto

subsection \<open>Accepted edges and the key\<close>

lemma send_cases:
  obtains (bad_request) "f \<notin> set (users db)" "send u f db = (Inl BAD_REQUEST, db)"
  | (update) s where "s \<noteq> Accepted" "edge u f s (friendships db)"
      "send u f db =
         (Inr (), db\<lparr>friendships := updateTable (\<lambda>r. r\<lparr>status := Requested\<rparr>)
                          (\<lambda>r. userId r = u \<and> friendUserId r = f) (friendships db)\<rparr>)"
  | (rejected) "send u f db = (Inl UNIQUE_CONSTRAINT, db)"
  | (insert) "\<not> (\<exists>s. edge u f s (friendships db))"
      "send u f db =
         (Inr (), db\<lparr>friendships :=
                        friendships db @ [\<lparr>userId = u, friendUserId = f, status = Requested\<rparr>]\<rparr>)"
proof (cases "f \<in> set (users db)")
  case False
  then have "send u f db = (Inl BAD_REQUEST, db)" by (simp add: send_eq)
  with False show ?thesis by (rule bad_request)
next
  case user: True
  show ?thesis
  proof (cases "\<exists>s. s \<noteq> Accepted \<and> edge u f s (friendships db)")
    case True
    then obtain s where "s \<noteq> Accepted" "edge u f s (friendships db)" by blast
    then show ?thesis using send_update [OF user True] by (rule update)
  next
    case na: False
    show ?thesis
    proof (cases "edge u f Accepted (friendships db)")
      case True
      from send_rejected [OF user na True] show ?thesis by (rule rejected)
    next
      case False
      with na have no: "\<not> (\<exists>s. edge u f s (friendships db))" by metis
      then show ?thesis using send_insert [OF user no] by (rule insert)
    qed
  qed
qed

lemma send_preserves_accepted:
  assumes "keyed (friendships db)"
  shows "edge a b Accepted (friendships (snd (send u f db))) \<longleftrightarrow> edge a b Accepted (friendships db)"
proof (cases u f db rule: send_cases)
  case bad_request
  then show ?thesis by simp
next
  case (update s)
  have "edge a b Accepted (updateTable (\<lambda>r. r\<lparr>status := Requested\<rparr>)
          (\<lambda>r. userId r = u \<and> friendUserId r = f) (friendships db))
        \<longleftrightarrow> edge a b Accepted (friendships db)"
  proof (cases "a = u \<and> b = f")
    case True
    have "\<not> edge u f Accepted (friendships db)"
      using keyed_edge_unique [OF assms update(2)] update(1) by blast
    with True show ?thesis
      by (simp add: edge_updateTable_same)
  next
    case False
    then have "(a, b) \<noteq> (u, f)" by simp
    then show ?thesis by (rule edge_updateTable_other)
  qed
  then show ?thesis unfolding update(3) by simp
next
  case rejected
  then show ?thesis by simp
next
  case insert
  show ?thesis unfolding insert(2) by (simp add: edge_append)
qed

lemma send_preserves_keyed:
  assumes "keyed (friendships db)"
  shows "keyed (friendships (snd (send u f db)))"
proof (cases u f db rule: send_cases)
  case bad_request
  with assms show ?thesis by simp
next
  case (update s)
  show ?thesis unfolding update(3) using assms by (simp add: keyed_updateTable)
next
  case rejected
  with assms show ?thesis by simp
next
  case insert
  show ?thesis unfolding insert(2) using assms insert(1) by (simp add: keyed_append)
qed

lemma decline_preserves_accepted:
  assumes "keyed (friendships db)"
  shows "edge a b Accepted (friendships (snd (decline u f db))) \<longleftrightarrow> edge a b Accepted (friendships db)"
proof (cases "edge f u Requested (friendships db)")
  case False
  then show ?thesis by (simp add: decline_eq)
next
  case True
  have "edge a b Accepted (updateTable (\<lambda>r. r\<lparr>status := Declined\<rparr>)
          (\<lambda>r. userId r = f \<and> friendUserId r = u) (friendships db))
        \<longleftrightarrow> edge a b Accepted (friendships db)"
  proof (cases "a = f \<and> b = u")
    case same: True
    have "\<not> edge f u Accepted (friendships db)"
      using keyed_edge_unique [OF assms True] by blast
    with same show ?thesis
      by (simp add: edge_updateTable_same)
  next
    case False
    then have "(a, b) \<noteq> (f, u)" by simp
    then show ?thesis by (rule edge_updateTable_other)
  qed
  then show ?thesis unfolding decline_success [OF True] by simp
qed

lemma decline_preserves_keyed:
  assumes "keyed (friendships db)"
  shows "keyed (friendships (snd (decline u f db)))"
  unfolding decline_eq using assms by (simp add: keyed_updateTable)

lemma edge_update_accepted:
  assumes "\<exists>s0. edge c d s0 rows"
  shows "edge a b Accepted (updateTable (\<lambda>r. r\<lparr>status := Accepted\<rparr>)
            (\<lambda>r. userId r = c \<and> friendUserId r = d) rows)
         \<longleftrightarrow> edge a b Accepted rows \<or> (a = c \<and> b = d)"
proof (cases "a = c \<and> b = d")
  case True
  with edge_updateTable_sameI [OF assms, of Accepted] show ?thesis by simp
next
  case False
  then have "(a, b) \<noteq> (c, d)" by simp
  from edge_updateTable_other [OF this] False show ?thesis by blast
qed

lemma accept_accepted_edges:
  assumes ok: "fst (accept flt u f db) = Inr ()"
  shows "edge a b Accepted (friendships (snd (accept flt u f db)))
         \<longleftrightarrow> edge a b Accepted (friendships db) \<or> (a = f \<and> b = u) \<or> (a = u \<and> b = f)"
proof -
  let ?t1 = "updateTable (\<lambda>r. r\<lparr>status := Accepted\<rparr>)
               (\<lambda>r. userId r = f \<and> friendUserId r = u) (friendships db)"
  from accept_success(1) [OF ok] have fu: "\<exists>s0. edge f u s0 (friendships db)" by blast
  have t1: "edge a b Accepted ?t1 \<longleftrightarrow> edge a b Accepted (friendships db) \<or> (a = f \<and> b = u)"
    using fu by (rule edge_update_accepted)
  show ?thesis
  proof (cases "\<exists>s. edge u f s (friendships db)")
    case True
    have "\<exists>s0. edge u f s0 ?t1"
      unfolding edge_some_updateTable by (rule True)
    from edge_update_accepted [OF this, of a b] t1
    have "edge a b Accepted (updateTable (\<lambda>r. r\<lparr>status := Accepted\<rparr>)
            (\<lambda>r. userId r = u \<and> friendUserId r = f) ?t1)
          \<longleftrightarrow> edge a b Accepted (friendships db) \<or> (a = f \<and> b = u) \<or> (a = u \<and> b = f)"
      by blast
    then show ?thesis
      unfolding accept_success(2) [OF ok] if_P [OF True] by simp
  next
    case False
    have "edge a b Accepted (?t1 @ [\<lparr>userId = u, friendUserId = f, status = Accepted\<rparr>])
          \<longleftrightarrow> edge a b Accepted (friendships db) \<or> (a = f \<and> b = u) \<or> (a = u \<and> b = f)"
      unfolding edge_append t1 by auto
    then show ?thesis
      unfolding accept_success(2) [OF ok] if_not_P [OF False] by simp
  qed
qed

lemma accept_preserves_mutual:
  assumes "mutual_friendship (friendships db)"
  shows "mutual_friendship (friendships (snd (accept flt u f db)))"
proof (cases "fst (accept flt u f db) = Inr ()")
  case True
  from assms have sym: "\<And>a b. edge a b Accepted (friendships db) \<longleftrightarrow> edge b a Accepted (friendships db)"
    unfolding mutual_friendship_def by blast
  show ?thesis
    unfolding mutual_friendship_def accept_accepted_edges [OF True]
    using sym by blast
next
  case False
  then have "snd (accept flt u f db) = db" by (rule accept_failure)
  with assms show ?thesis by simp
qed

lemma accept_preserves_keyed:
  assumes "keyed (friendships db)"
  shows "keyed (friendships (snd (accept flt u f db)))"
proof (cases "fst (accept flt u f db) = Inr ()")
  case ok: True
  show ?thesis
  proof (cases "\<exists>s. edge u f s (friendships db)")
    case True
    show ?thesis
      unfolding accept_success(2) [OF ok] if_P [OF True]
      using assms by (simp add: keyed_updateTable)
  next
    case False
    show ?thesis
      unfolding accept_success(2) [OF ok] if_not_P [OF False]
      using assms False by (simp add: keyed_append keyed_updateTable edge_some_updateTable)
  qed
next
  case False
  then have "snd (accept flt u f db) = db" by (rule accept_failure)
  with assms show ?thesis by simp
qed

lemma handle_preserves:
  assumes "keyed (friendships db)" and "mutual_friendship (friendships db)"
  shows "keyed (friendships (snd (handle rq db)))"
    and "mutual_friendship (friendships (snd (handle rq db)))"
proof -
  show "keyed (friendships (snd (handle rq db)))"
    using assms(1)
    by (cases rq) (simp_all add: send_preserves_keyed accept_preserves_keyed decline_preserves_keyed)
  show "mutual_friendship (friendships (snd (handle rq db)))"
  proof (cases rq)
    case (Send u f)
    show ?thesis
      unfolding Send handle.simps mutual_friendship_def send_preserves_accepted [OF assms(1)]
      using assms(2) unfolding mutual_friendship_def .
  next
    case (Accept flt u f)
    show ?thesis
      unfolding Accept handle.simps using assms(2) by (rule accept_preserves_mutual)
  next
    case (Decline u f)
    show ?thesis
      unfolding Decline handle.simps mutual_friendship_def decline_preserves_accepted [OF assms(1)]
      using assms(2) unfolding mutual_friendship_def .
  qed
qed

lemma run_preserves:
  "keyed (friendships db) \<Longrightarrow> mutual_friendship (friendships db) \<Longrightarrow>
   keyed (friendships (run rqs db)) \<and> mutual_friendship (friendships (run rqs db))"
proof (induction rqs arbitrary: db)
  case Nil
  then show ?case by simp
next
  case (Cons rq rqs)
  from handle_preserves [OF Cons.prems]
  have "keyed (friendships (snd (handle rq db)))"
    and "mutual_friendship (friendships (snd (handle rq db)))" .
  then have "keyed (friendships (run rqs (snd (handle rq db))))
           \<and> mutual_friendship (friendships (run rqs (snd (handle rq db))))"
    by (rule Cons.IH)
  then show ?case by simp
qed

subsection \<open>The procedures on the example databases\<close>

lemmas example_defs =
  db_pending_def db_friends_def db_declined_def db_strangers_def db_alone_def
  db_self_pending_def db_self_friend_def db_crossed_def no_fault_def fault_at_def

lemmas router_defs =
  send_def send_mutation_def accept_def accept_transaction_def decline_def decline_mutation_def
  canSendFriendshipRequest_def canAnswerFriendshipRequest_def use_def transaction_def
  bindE_def exec_def insertInto_def updateTable_def executeTakeFirstOrThrow_def
  executeTakeFirst_def

lemma send_declined: "send 1 2 db_declined = (Inr (), db_pending)"
  by (simp add: router_defs example_defs)

lemma send_strangers: "send 1 2 db_strangers = (Inr (), db_pending)"
  by (simp add: router_defs example_defs)

lemma decline_pending: "decline 2 1 db_pending = (Inr (), db_declined)"
  by (simp add: router_defs example_defs)

lemma accept_crossed: "accept no_fault 2 1 db_crossed = (Inr (), db_friends)"
  by (simp add: router_defs example_defs)

lemma accept_pending: "accept no_fault 2 1 db_pending = (Inr (), db_friends)"
  by (simp add: router_defs example_defs)

lemma send_alone: "send 1 1 db_alone = (Inr (), db_self_pending)"
  by (simp add: router_defs example_defs)

lemma accept_self: "accept no_fault 1 1 db_self_pending = (Inr (), db_self_friend)"
  by (simp add: router_defs example_defs)

lemma run_strangers: "run [Send 1 2, Accept no_fault 2 1] db_strangers = db_friends"
  by (simp add: send_strangers accept_pending)

lemma send_friends: "send 1 2 db_friends = (Inl UNIQUE_CONSTRAINT, db_friends)"
  by (simp add: router_defs example_defs)

lemma send_self_friend: "send 1 1 db_self_friend = (Inl UNIQUE_CONSTRAINT, db_self_friend)"
  by (simp add: router_defs example_defs)

lemma run_alone: "run [Send 1 1, Accept no_fault 1 1] db_alone = db_self_friend"
  by (simp add: send_alone accept_self)

section \<open>The claims\<close>

text \<open>
  In the statements below \<open>u\<close> is the authenticated caller and \<open>f\<close> the input
  \<^verbatim>\<open>friendUserId\<close>. A procedure applied to a database gives the pair of its result and the
  database it leaves; \<open>flt\<close> says on which statements of the transaction the data-access
  layer fails.
\<close>

subsection \<open>C1: accepting a request\<close>

text \<open>
  C1. Accepting a pending request leaves both directed edges accepted: when the edge from
  \<open>f\<close> to the caller \<open>u\<close> is requested, \<open>accept\<close> succeeds as soon as the data-access
  layer does not fail, and whenever it succeeds the edge from \<open>f\<close> to \<open>u\<close> and the edge from
  \<open>u\<close> to \<open>f\<close> are both in the table with status accepted.
\<close>

theorem accept_yields_two_accepted_edges:
  assumes "edge f u Requested (friendships db)"
  shows "(\<not> flt 0 \<and> \<not> flt 1 \<and> \<not> flt 2 \<and> \<not> flt 3 \<longrightarrow> fst (accept flt u f db) = Inr ())
       \<and> (fst (accept flt u f db) = Inr () \<longrightarrow>
            edge f u Accepted (friendships (snd (accept flt u f db)))
          \<and> edge u f Accepted (friendships (snd (accept flt u f db))))"
proof (intro conjI impI)
  assume "\<not> flt 0 \<and> \<not> flt 1 \<and> \<not> flt 2 \<and> \<not> flt 3"
  with assms show "fst (accept flt u f db) = Inr ()"
    by (simp add: accept_no_fault)
next
  assume ok: "fst (accept flt u f db) = Inr ()"
  from assms have fu: "\<exists>s. edge f u s (friendships db)" by blast
  show "edge f u Accepted (friendships (snd (accept flt u f db)))"
  proof (cases "\<exists>s. edge u f s (friendships db)")
    case True
    show ?thesis
      unfolding accept_success(2) [OF ok] if_P [OF True]
      using accepted_both_update(1) [OF fu True] by simp
  next
    case False
    show ?thesis
      unfolding accept_success(2) [OF ok] if_not_P [OF False]
      using accepted_both_insert(1) [OF fu] by simp
  qed
  show "edge u f Accepted (friendships (snd (accept flt u f db)))"
  proof (cases "\<exists>s. edge u f s (friendships db)")
    case True
    show ?thesis
      unfolding accept_success(2) [OF ok] if_P [OF True]
      using accepted_both_update(2) [OF fu True] by simp
  next
    case False
    show ?thesis
      unfolding accept_success(2) [OF ok] if_not_P [OF False]
      using accepted_both_insert(2) [OF fu] by simp
  qed
qed

theorem accept_yields_two_accepted_edges_witness:
  "edge 1 2 Requested (friendships db_pending)
   \<and> fst (accept no_fault 2 1 db_pending) = Inr ()
   \<and> edge 1 2 Accepted (friendships (snd (accept no_fault 2 1 db_pending)))
   \<and> edge 2 1 Accepted (friendships (snd (accept no_fault 2 1 db_pending)))"
proof -
  have h: "edge 1 2 Requested (friendships db_pending)"
    by (simp add: edge_def db_pending_def)
  from accept_yields_two_accepted_edges [OF h, of no_fault] h show ?thesis
    by (simp add: no_fault_def)
qed

subsection \<open>C2: sending a request\<close>

text \<open>
  C2 as it is written lets \<open>send\<close> insert a new edge whenever there is no edge from \<open>u\<close> to
  \<open>f\<close> with a status other than accepted. That fails when the two users are friends
  already: users 1 and 2 become friends by a request and its acceptance, and the next
  \<open>send\<close> from 1 to 2 finds no row to reset, tries the insert, and is turned down by the
  key of the table. No requested edge from 1 to 2 comes out of it.
\<close>

theorem send_to_friend_counterexample:
  "run [Send 1 2, Accept no_fault 2 1] db_strangers = db_friends
   \<and> 2 \<in> set (users db_friends)
   \<and> \<not> edge 1 2 Requested (friendships db_friends)
   \<and> \<not> edge 1 2 Declined (friendships db_friends)
   \<and> send 1 2 db_friends = (Inl UNIQUE_CONSTRAINT, db_friends)
   \<and> \<not> edge 1 2 Requested (friendships (snd (send 1 2 db_friends)))"
  unfolding send_friends run_strangers
  by (simp add: edge_def db_friends_def)

text \<open>
  C2, amended. For a target \<open>f\<close> in \<^verbatim>\<open>users\<close>: if the table holds an edge from \<open>u\<close> to \<open>f\<close>
  whose status is not accepted, \<open>send\<close> succeeds, every row from \<open>u\<close> to \<open>f\<close> has status
  requested afterwards, and no other row is touched or added; if the table holds no edge
  from \<open>u\<close> to \<open>f\<close> at all, \<open>send\<close> succeeds and appends the requested edge. In
  particular a declined request is opened again as requested. The \<^verbatim>\<open>users\<close> table is
  never changed.
\<close>

theorem send_requests_edge:
  assumes "f \<in> set (users db)" and "send u f db = (res, db')"
  shows "((\<exists>s. s \<noteq> Accepted \<and> edge u f s (friendships db)) \<longrightarrow>
            res = Inr ()
          \<and> edge u f Requested (friendships db')
          \<and> (\<forall>r \<in> set (friendships db'). userId r = u \<and> friendUserId r = f \<longrightarrow> status r = Requested)
          \<and> other_rows {(u, f)} (friendships db') = other_rows {(u, f)} (friendships db)
          \<and> length (friendships db') = length (friendships db))
       \<and> (\<not> (\<exists>s. edge u f s (friendships db)) \<longrightarrow>
            res = Inr ()
          \<and> friendships db' =
              friendships db @ [\<lparr>userId = u, friendUserId = f, status = Requested\<rparr>])
       \<and> users db' = users db"
proof (intro conjI impI)
  assume na: "\<exists>s. s \<noteq> Accepted \<and> edge u f s (friendships db)"
  let ?t' = "updateTable (\<lambda>r. r\<lparr>status := Requested\<rparr>)
               (\<lambda>r. userId r = u \<and> friendUserId r = f) (friendships db)"
  from assms(2) have res: "res = Inr ()" and db': "db' = db\<lparr>friendships := ?t'\<rparr>"
    unfolding send_update [OF assms(1) na] by simp_all
  have t': "friendships db' = ?t'" unfolding db' by simp
  show "res = Inr ()" by (rule res)
  from na have "\<exists>s0. edge u f s0 (friendships db)" by blast
  then show "edge u f Requested (friendships db')"
    unfolding t' by (rule edge_updateTable_sameI)
  show "\<forall>r \<in> set (friendships db'). userId r = u \<and> friendUserId r = f \<longrightarrow> status r = Requested"
    unfolding t' by (rule status_updateTable)
  show "other_rows {(u, f)} (friendships db') = other_rows {(u, f)} (friendships db)"
    unfolding t' by (rule other_rows_updateTable) simp
  show "length (friendships db') = length (friendships db)"
    unfolding t' by (rule length_updateTable)
next
  assume no: "\<not> (\<exists>s. edge u f s (friendships db))"
  from assms(2) show "res = Inr ()"
    unfolding send_insert [OF assms(1) no] by simp
  from assms(2) show "friendships db' =
      friendships db @ [\<lparr>userId = u, friendUserId = f, status = Requested\<rparr>]"
    unfolding send_insert [OF assms(1) no] by auto
next
  show "users db' = users db"
  proof (cases "\<exists>s. s \<noteq> Accepted \<and> edge u f s (friendships db)")
    case True
    from assms(2) show ?thesis
      unfolding send_update [OF assms(1) True] by auto
  next
    case False
    from assms(2) show ?thesis
      unfolding send_eq send_mutation_insert [OF False] using assms(1)
      by (auto split: if_splits)
  qed
qed

theorem send_requests_edge_witness:
  "2 \<in> set (users db_declined)
   \<and> edge 1 2 Declined (friendships db_declined)
   \<and> send 1 2 db_declined = (Inr (), db_pending)
   \<and> edge 1 2 Requested (friendships db_pending)
   \<and> length (friendships db_pending) = length (friendships db_declined)
   \<and> 2 \<in> set (users db_strangers)
   \<and> \<not> edge 1 2 Requested (friendships db_strangers)
   \<and> \<not> edge 1 2 Accepted (friendships db_strangers)
   \<and> \<not> edge 1 2 Declined (friendships db_strangers)
   \<and> send 1 2 db_strangers = (Inr (), db_pending)
   \<and> friendships db_pending =
       friendships db_strangers @ [\<lparr>userId = 1, friendUserId = 2, status = Requested\<rparr>]"
proof -
  have u1: "2 \<in> set (users db_declined)" and u2: "2 \<in> set (users db_strangers)"
    by (simp_all add: example_defs)
  have d: "edge 1 2 Declined (friendships db_declined)"
    by (simp add: edge_def example_defs)
  then have na: "\<exists>s. s \<noteq> Accepted \<and> edge 1 2 s (friendships db_declined)"
    by (intro exI [of _ Declined]) simp
  have no: "\<not> (\<exists>s. edge 1 2 s (friendships db_strangers))"
    by (simp add: edge_def example_defs)
  from send_requests_edge [OF u1 send_declined] na
  have 1: "edge 1 2 Requested (friendships db_pending)
         \<and> length (friendships db_pending) = length (friendships db_declined)"
    by blast
  from send_requests_edge [OF u2 send_strangers] no
  have 2: "friendships db_pending =
       friendships db_strangers @ [\<lparr>userId = 1, friendUserId = 2, status = Requested\<rparr>]"
    by blast
  from no have 3: "\<not> edge 1 2 Requested (friendships db_strangers)
      \<and> \<not> edge 1 2 Accepted (friendships db_strangers)
      \<and> \<not> edge 1 2 Declined (friendships db_strangers)"
    by blast
  from u1 u2 d 1 2 3 send_declined send_strangers show ?thesis
    by blast
qed

subsection \<open>C3: declining a request\<close>

text \<open>
  C3. When the edge from \<open>f\<close> to the caller \<open>u\<close> is requested, \<open>decline\<close> succeeds and sets
  that edge to declined; the rows for every other ordered pair are what they were, no row
  is added (so no reciprocal edge from \<open>u\<close> to \<open>f\<close> appears), and \<^verbatim>\<open>users\<close> is unchanged.
\<close>

theorem decline_sets_declined_only:
  assumes "edge f u Requested (friendships db)" and "decline u f db = (res, db')"
  shows "res = Inr ()
       \<and> edge f u Declined (friendships db')
       \<and> (\<forall>r \<in> set (friendships db'). userId r = f \<and> friendUserId r = u \<longrightarrow> status r = Declined)
       \<and> other_rows {(f, u)} (friendships db') = other_rows {(f, u)} (friendships db)
       \<and> length (friendships db') = length (friendships db)
       \<and> (u \<noteq> f \<longrightarrow> (\<forall>s. edge u f s (friendships db') \<longleftrightarrow> edge u f s (friendships db)))
       \<and> users db' = users db"
proof -
  let ?t' = "updateTable (\<lambda>r. r\<lparr>status := Declined\<rparr>)
               (\<lambda>r. userId r = f \<and> friendUserId r = u) (friendships db)"
  from assms have res: "res = Inr ()" and db': "db' = db\<lparr>friendships := ?t'\<rparr>"
    unfolding decline_success [OF assms(1)] by simp_all
  have t': "friendships db' = ?t'" and us: "users db' = users db"
    unfolding db' by simp_all
  from assms(1) have "\<exists>s0. edge f u s0 (friendships db)" by blast
  then have 1: "edge f u Declined ?t'" by (rule edge_updateTable_sameI)
  have 2: "\<forall>r \<in> set ?t'. userId r = f \<and> friendUserId r = u \<longrightarrow> status r = Declined"
    by (rule status_updateTable)
  have 3: "other_rows {(f, u)} ?t' = other_rows {(f, u)} (friendships db)"
    by (rule other_rows_updateTable) simp
  have 4: "length ?t' = length (friendships db)"
    by (rule length_updateTable)
  have 5: "u \<noteq> f \<longrightarrow> (\<forall>s. edge u f s ?t' \<longleftrightarrow> edge u f s (friendships db))"
  proof (intro impI allI)
    fix s assume "u \<noteq> f"
    then have "(u, f) \<noteq> (f, u)" by simp
    then show "edge u f s ?t' \<longleftrightarrow> edge u f s (friendships db)"
      by (rule edge_updateTable_other)
  qed
  show ?thesis
    unfolding t' using res 1 2 3 4 5 us by blast
qed

theorem decline_sets_declined_only_witness:
  "edge 1 2 Requested (friendships db_pending)
   \<and> decline 2 1 db_pending = (Inr (), db_declined)
   \<and> edge 1 2 Declined (friendships db_declined)
   \<and> other_rows {(1, 2)} (friendships db_declined) = other_rows {(1, 2)} (friendships db_pending)
   \<and> length (friendships db_declined) = length (friendships db_pending)
   \<and> users db_declined = users db_pending"
proof -
  have h: "edge 1 2 Requested (friendships db_pending)"
    by (simp add: edge_def example_defs)
  from decline_sets_declined_only [OF h decline_pending] h decline_pending show ?thesis
    by blast
qed

subsection \<open>C4: when the bad-request error is raised\<close>

text \<open>
  C4. \<open>send\<close> raises the bad-request error exactly when no user has the id \<open>f\<close>;
  \<open>accept\<close> and \<open>decline\<close> raise it exactly when the table holds no requested edge from
  \<open>f\<close> to the caller.
\<close>

theorem bad_request_iff_guard_fails:
  "(fst (send u f db) = Inl BAD_REQUEST \<longleftrightarrow> f \<notin> set (users db))
   \<and> (fst (accept flt u f db) = Inl BAD_REQUEST \<longleftrightarrow> \<not> edge f u Requested (friendships db))
   \<and> (fst (decline u f db) = Inl BAD_REQUEST \<longleftrightarrow> \<not> edge f u Requested (friendships db))"
  by (simp only: send_bad_request_iff accept_bad_request_iff decline_bad_request_iff simp_thms)

theorem bad_request_iff_guard_fails_witness:
  "3 \<notin> set (users db_pending)
   \<and> fst (send 1 3 db_pending) = Inl BAD_REQUEST
   \<and> \<not> edge 3 1 Requested (friendships db_pending)
   \<and> fst (accept no_fault 1 3 db_pending) = Inl BAD_REQUEST
   \<and> fst (decline 1 3 db_pending) = Inl BAD_REQUEST
   \<and> 1 \<in> set (users db_pending)
   \<and> fst (send 2 1 db_pending) \<noteq> Inl BAD_REQUEST
   \<and> edge 1 2 Requested (friendships db_pending)
   \<and> fst (accept no_fault 2 1 db_pending) \<noteq> Inl BAD_REQUEST
   \<and> fst (decline 2 1 db_pending) \<noteq> Inl BAD_REQUEST"
proof -
  have u: "3 \<notin> set (users db_pending)" and v: "1 \<in> set (users db_pending)"
    by (simp_all add: example_defs)
  have n: "\<not> edge 3 1 Requested (friendships db_pending)"
    and e: "edge 1 2 Requested (friendships db_pending)"
    by (simp_all add: edge_def example_defs)
  from bad_request_iff_guard_fails [of 1 3 db_pending no_fault]
       bad_request_iff_guard_fails [of 2 1 db_pending no_fault] u v n e
  show ?thesis
    by blast
qed

subsection \<open>C5: the transaction of accept\<close>

text \<open>
  C5. Both writes of \<open>accept\<close> happen inside one transaction, so a failure leaves nothing
  behind: whenever \<open>accept\<close> does not succeed the database is the one before the call, and
  when the guard has passed and the data-access layer fails on any statement the
  transaction reaches (the first update, the select, or the insert or update of the
  reverse row), \<open>accept\<close> throws that failure and the database is the one before the call.
\<close>

theorem accept_is_atomic:
  "(fst (accept flt u f db) \<noteq> Inr () \<longrightarrow> snd (accept flt u f db) = db)
   \<and> (edge f u Requested (friendships db)
        \<and> (flt 0 \<or> flt 1 \<or> (if \<exists>s. edge u f s (friendships db) then flt 3 else flt 2))
      \<longrightarrow> accept flt u f db = (Inl DATA_ACCESS_FAILURE, db))"
proof (intro conjI impI)
  assume "fst (accept flt u f db) \<noteq> Inr ()"
  then show "snd (accept flt u f db) = db" by (rule accept_failure)
next
  assume a: "edge f u Requested (friendships db)
        \<and> (flt 0 \<or> flt 1 \<or> (if \<exists>s. edge u f s (friendships db) then flt 3 else flt 2))"
  show "accept flt u f db = (Inl DATA_ACCESS_FAILURE, db)"
  proof (cases "\<exists>s. edge u f s (friendships db)")
    case True
    from a show ?thesis
      unfolding accept_cases_update [OF True] if_P [OF True] by auto
  next
    case False
    from a show ?thesis
      unfolding accept_cases_insert [OF False] if_not_P [OF False] by auto
  qed
qed

theorem accept_is_atomic_witness:
  "edge 1 2 Requested (friendships db_pending)
   \<and> \<not> edge 2 1 Requested (friendships db_pending)
   \<and> \<not> edge 2 1 Accepted (friendships db_pending)
   \<and> \<not> edge 2 1 Declined (friendships db_pending)
   \<and> fault_at 2 2
   \<and> accept (fault_at 2) 2 1 db_pending = (Inl DATA_ACCESS_FAILURE, db_pending)
   \<and> fst (accept (fault_at 2) 2 1 db_pending) \<noteq> Inr ()
   \<and> snd (accept (fault_at 2) 2 1 db_pending) = db_pending"
proof -
  have e: "edge 1 2 Requested (friendships db_pending)"
    by (simp add: edge_def example_defs)
  have no: "\<not> (\<exists>s. edge 2 1 s (friendships db_pending))"
    by (simp add: edge_def example_defs)
  have f: "fault_at 2 2"
    by (simp add: fault_at_def)
  from no f
  have c: "fault_at 2 0 \<or> fault_at 2 1
         \<or> (if \<exists>s. edge 2 1 s (friendships db_pending) then fault_at 2 3 else fault_at 2 2)"
    by simp
  from accept_is_atomic [of "fault_at 2" 2 1 db_pending] e c
  have "accept (fault_at 2) 2 1 db_pending = (Inl DATA_ACCESS_FAILURE, db_pending)"
    by blast
  with e no f show ?thesis
    by auto
qed

subsection \<open>C6: mutual friendship\<close>

text \<open>
  C6. The mutual-friendship invariant is preserved: start from a table that respects its
  key and in which the edge from \<open>a\<close> to \<open>b\<close> is accepted exactly when the edge from \<open>b\<close> to
  \<open>a\<close> is; then the same holds after any sequence of requests, and after a further
  \<open>send\<close>, \<open>accept\<close> or \<open>decline\<close> in the state reached. The key is respected in every
  state reached as well.
\<close>

theorem mutual_friendship_preserved:
  assumes "keyed (friendships db)" and "mutual_friendship (friendships db)"
  shows "keyed (friendships (run rqs db))
       \<and> mutual_friendship (friendships (run rqs db))
       \<and> mutual_friendship (friendships (snd (send u f (run rqs db))))
       \<and> mutual_friendship (friendships (snd (accept flt u f (run rqs db))))
       \<and> mutual_friendship (friendships (snd (decline u f (run rqs db))))"
proof -
  from run_preserves [OF assms]
  have k: "keyed (friendships (run rqs db))" and m: "mutual_friendship (friendships (run rqs db))"
    by simp_all
  from handle_preserves(2) [OF k m, of "Send u f"]
       handle_preserves(2) [OF k m, of "Accept flt u f"]
       handle_preserves(2) [OF k m, of "Decline u f"] k m
  show ?thesis by simp
qed

theorem mutual_friendship_preserved_witness:
  "keyed (friendships db_strangers)
   \<and> mutual_friendship (friendships db_strangers)
   \<and> run [Send 1 2, Accept no_fault 2 1] db_strangers = db_friends
   \<and> mutual_friendship (friendships db_friends)
   \<and> mutual_friendship (friendships (snd (send 1 2 db_friends)))
   \<and> mutual_friendship (friendships (snd (accept no_fault 1 2 db_friends)))
   \<and> mutual_friendship (friendships (snd (decline 1 2 db_friends)))"
proof -
  have k: "keyed (friendships db_strangers)"
    by (simp add: keyed_def example_defs)
  have m: "mutual_friendship (friendships db_strangers)"
    by (simp add: mutual_friendship_def edge_def example_defs)
  from mutual_friendship_preserved [OF k m, of "[Send 1 2, Accept no_fault 2 1]" 1 2 no_fault]
  have "keyed (friendships db_friends)
   \<and> mutual_friendship (friendships db_friends)
   \<and> mutual_friendship (friendships (snd (send 1 2 db_friends)))
   \<and> mutual_friendship (friendships (snd (accept no_fault 1 2 db_friends)))
   \<and> mutual_friendship (friendships (snd (decline 1 2 db_friends)))"
    unfolding run_strangers .
  with k m run_strangers show ?thesis
    by blast
qed

subsection \<open>C7: a request to oneself\<close>

text \<open>
  C7 as it is written lets every \<open>send\<close> of a user to themselves create or re-request the
  self-edge. The guard does let such a request through, but once the self-edge is accepted
  (user 1 asks themselves and accepts) the next \<open>send\<close> is turned down by the key of the
  table and no requested self-edge comes out of it.
\<close>

theorem send_to_self_counterexample:
  "run [Send 1 1, Accept no_fault 1 1] db_alone = db_self_friend
   \<and> 1 \<in> set (users db_self_friend)
   \<and> send 1 1 db_self_friend = (Inl UNIQUE_CONSTRAINT, db_self_friend)
   \<and> \<not> edge 1 1 Requested (friendships (snd (send 1 1 db_self_friend)))"
  unfolding send_self_friend run_alone
  by (simp add: edge_def db_self_friend_def)

text \<open>
  C7, amended. \<open>send\<close> does not ask the target to differ from the caller: for a caller \<open>u\<close>
  in \<^verbatim>\<open>users\<close>, \<open>send\<close> with the caller's own id never raises the bad-request error, and
  unless an accepted self-edge is in the table already it succeeds and leaves the
  self-edge from \<open>u\<close> to \<open>u\<close> with status requested.
\<close>

theorem send_to_self:
  assumes "u \<in> set (users db)" and "send u u db = (res, db')"
  shows "res \<noteq> Inl BAD_REQUEST
       \<and> (\<not> edge u u Accepted (friendships db) \<longrightarrow>
            res = Inr () \<and> edge u u Requested (friendships db'))"
proof (intro conjI impI)
  from assms(2) have "res = fst (send u u db)" by simp
  also have "\<dots> \<noteq> Inl BAD_REQUEST"
    unfolding send_eq using assms(1) send_mutation_not_bad_request [of u u db] by simp
  finally show "res \<noteq> Inl BAD_REQUEST" .
next
  assume acc: "\<not> edge u u Accepted (friendships db)"
  show "res = Inr ()"
  proof (cases "\<exists>s. s \<noteq> Accepted \<and> edge u u s (friendships db)")
    case True
    from assms(2) show ?thesis
      unfolding send_update [OF assms(1) True] by simp
  next
    case False
    with acc have no: "\<not> (\<exists>s. edge u u s (friendships db))" by metis
    from assms(2) show ?thesis
      unfolding send_insert [OF assms(1) no] by simp
  qed
  show "edge u u Requested (friendships db')"
  proof (cases "\<exists>s. s \<noteq> Accepted \<and> edge u u s (friendships db)")
    case True
    then have ex: "\<exists>s0. edge u u s0 (friendships db)" by blast
    from assms(2) have "friendships db' = updateTable (\<lambda>r. r\<lparr>status := Requested\<rparr>)
                      (\<lambda>r. userId r = u \<and> friendUserId r = u) (friendships db)"
      unfolding send_update [OF assms(1) True] by auto
    then show ?thesis
      using edge_updateTable_sameI [OF ex] by simp
  next
    case False
    with acc have no: "\<not> (\<exists>s. edge u u s (friendships db))" by metis
    from assms(2) have "friendships db' =
        friendships db @ [\<lparr>userId = u, friendUserId = u, status = Requested\<rparr>]"
      unfolding send_insert [OF assms(1) no] by auto
    then show ?thesis
      by (simp add: edge_append)
  qed
qed

theorem send_to_self_witness:
  "1 \<in> set (users db_alone)
   \<and> \<not> edge 1 1 Accepted (friendships db_alone)
   \<and> send 1 1 db_alone = (Inr (), db_self_pending)
   \<and> edge 1 1 Requested (friendships db_self_pending)"
proof -
  have u: "1 \<in> set (users db_alone)"
    by (simp add: example_defs)
  have a: "\<not> edge 1 1 Accepted (friendships db_alone)"
    by (simp add: edge_def example_defs)
  from send_to_self [OF u send_alone] a u send_alone show ?thesis
    by blast
qed

subsection \<open>C8: what accept leaves alone\<close>

text \<open>
  C8. A successful \<open>accept\<close> leaves \<^verbatim>\<open>users\<close> and every row for an ordered pair other than
  \<open>(f, u)\<close> and \<open>(u, f)\<close> as they were; every row from \<open>u\<close> to \<open>f\<close> has status accepted
  afterwards, and a reverse edge that was there before, whatever its status, is
  overwritten in place rather than added.
\<close>

theorem accept_frame:
  assumes "accept flt u f db = (Inr (), db')"
  shows "users db' = users db
       \<and> other_rows {(f, u), (u, f)} (friendships db') = other_rows {(f, u), (u, f)} (friendships db)
       \<and> (\<forall>r \<in> set (friendships db'). userId r = u \<and> friendUserId r = f \<longrightarrow> status r = Accepted)
       \<and> ((\<exists>s. edge u f s (friendships db)) \<longrightarrow>
             edge u f Accepted (friendships db')
           \<and> length (friendships db') = length (friendships db))"
proof -
  let ?t1 = "updateTable (\<lambda>r. r\<lparr>status := Accepted\<rparr>)
               (\<lambda>r. userId r = f \<and> friendUserId r = u) (friendships db)"
  let ?upd = "updateTable (\<lambda>r. r\<lparr>status := Accepted\<rparr>)
                (\<lambda>r. userId r = u \<and> friendUserId r = f) ?t1"
  let ?ins = "?t1 @ [\<lparr>userId = u, friendUserId = f, status = Accepted\<rparr>]"
  from assms have ok: "fst (accept flt u f db) = Inr ()" and db': "db' = snd (accept flt u f db)"
    by simp_all
  show ?thesis
  proof (cases "\<exists>s. edge u f s (friendships db)")
    case True
    have eq: "db' = db\<lparr>friendships := ?upd\<rparr>"
      unfolding db' accept_success(2) [OF ok] if_P [OF True] by (rule refl)
    have t': "friendships db' = ?upd" and us: "users db' = users db"
      unfolding eq by simp_all
    have 1: "other_rows {(f, u), (u, f)} ?upd = other_rows {(f, u), (u, f)} (friendships db)"
      by (rule other_rows_twice) simp_all
    have 2: "\<forall>r \<in> set ?upd. userId r = u \<and> friendUserId r = f \<longrightarrow> status r = Accepted"
      by (rule status_updateTable)
    have 3: "length ?upd = length (friendships db)"
      by (simp only: length_updateTable)
    have "\<exists>s0. edge u f s0 ?t1"
      unfolding edge_some_updateTable by (rule True)
    then have 4: "edge u f Accepted ?upd"
      by (rule edge_updateTable_sameI)
    show ?thesis
      unfolding t' using us 1 2 3 4 by blast
  next
    case False
    have eq: "db' = db\<lparr>friendships := ?ins\<rparr>"
      unfolding db' accept_success(2) [OF ok] if_not_P [OF False] by (rule refl)
    have t': "friendships db' = ?ins" and us: "users db' = users db"
      unfolding eq by simp_all
    have "other_rows {(f, u), (u, f)} ?ins = other_rows {(f, u), (u, f)} ?t1"
      by (rule other_rows_append) simp
    also have "\<dots> = other_rows {(f, u), (u, f)} (friendships db)"
      by (rule other_rows_updateTable) simp
    finally have 1: "other_rows {(f, u), (u, f)} ?ins = other_rows {(f, u), (u, f)} (friendships db)" .
    have "\<not> (\<exists>s. edge u f s ?t1)"
      unfolding edge_some_updateTable by (rule False)
    then have 2: "\<forall>r \<in> set ?ins. userId r = u \<and> friendUserId r = f \<longrightarrow> status r = Accepted"
      by (rule status_append_new)
    show ?thesis
      unfolding t' using us 1 2 False by blast
  qed
qed

theorem accept_frame_witness:
  "accept no_fault 2 1 db_crossed = (Inr (), db_friends)
   \<and> edge 2 1 Declined (friendships db_crossed)
   \<and> edge 2 1 Accepted (friendships db_friends)
   \<and> length (friendships db_friends) = length (friendships db_crossed)
   \<and> other_rows {(1, 2), (2, 1)} (friendships db_friends)
       = other_rows {(1, 2), (2, 1)} (friendships db_crossed)
   \<and> users db_friends = users db_crossed"
proof -
  have d: "edge 2 1 Declined (friendships db_crossed)"
    by (simp add: edge_def example_defs)
  then have "\<exists>s. edge 2 1 s (friendships db_crossed)" ..
  with accept_frame [OF accept_crossed] d accept_crossed show ?thesis
    by blast
qed

subsection \<open>C9: nothing changes on a bad request\<close>

text \<open>
  C9. The guard runs before any write: whenever \<open>send\<close>, \<open>accept\<close> or \<open>decline\<close> raises the
  bad-request error, the database afterwards is the database before the call.
\<close>

theorem bad_request_leaves_database:
  "(fst (send u f db) = Inl BAD_REQUEST \<longrightarrow> snd (send u f db) = db)
   \<and> (fst (accept flt u f db) = Inl BAD_REQUEST \<longrightarrow> snd (accept flt u f db) = db)
   \<and> (fst (decline u f db) = Inl BAD_REQUEST \<longrightarrow> snd (decline u f db) = db)"
  using send_bad_request_unchanged accept_bad_request_unchanged decline_bad_request_unchanged
  by blast

theorem bad_request_leaves_database_witness:
  "fst (send 1 3 db_pending) = Inl BAD_REQUEST
   \<and> snd (send 1 3 db_pending) = db_pending
   \<and> fst (accept no_fault 1 3 db_pending) = Inl BAD_REQUEST
   \<and> snd (accept no_fault 1 3 db_pending) = db_pending
   \<and> fst (decline 1 3 db_pending) = Inl BAD_REQUEST
   \<and> snd (decline 1 3 db_pending) = db_pending"
proof -
  have s: "fst (send 1 3 db_pending) = Inl BAD_REQUEST"
    and a: "fst (accept no_fault 1 3 db_pending) = Inl BAD_REQUEST"
    and d: "fst (decline 1 3 db_pending) = Inl BAD_REQUEST"
    by (simp_all add: router_defs example_defs)
  from bad_request_leaves_database [of 1 3 db_pending no_fault] s a d show ?thesis
    by blast
qed

end
